theory Spec2Isabelle
  imports Main "HOL-Library.Sublist"
begin

section \<open>Text, digits and whitespace\<close>

text \<open>
  A Python \<open>str\<close> is a sequence of Unicode code points; it is modelled as a list of
  natural numbers, one per code point. \<open>unicode\<close> embeds an ASCII literal.
\<close>

type_synonym ustring = "nat list"

definition unicode :: "string \<Rightarrow> ustring" where
  "unicode s = map of_char s"

text \<open>
  \<open>\d\<close> in a \<open>str\<close> pattern, \<open>str.isdecimal\<close> and \<open>int()\<close> agree on the decimal digits:
  the characters of Unicode category Nd. They come in runs of ten consecutive code
  points with the values 0 to 9; \<open>nd_zeros\<close> lists the first code point of every run
  (Unicode 14.0).
\<close>

definition nd_zeros :: "nat list" where
  "nd_zeros =
    [48, 1632, 1776, 1984, 2406, 2534, 2662, 2790, 2918, 3046, 3174, 3302, 3430, 3558,
     3664, 3792, 3872, 4160, 4240, 6112, 6160, 6470, 6608, 6784, 6800, 6992, 7088, 7232,
     7248, 42528, 43216, 43264, 43472, 43504, 43600, 44016, 65296, 66720, 68912, 69734,
     69872, 69942, 70096, 70384, 70736, 70864, 71248, 71360, 71472, 71904, 72016, 72784,
     73040, 73120, 92768, 92864, 93008, 120782, 120792, 120802, 120812, 120822, 123200,
     123632, 125264, 130032]"

definition digit_value :: "nat \<Rightarrow> nat option" where
  "digit_value c =
     (case List.find (\<lambda>z. z \<le> c \<and> c < z + 10) nd_zeros of
        None \<Rightarrow> None
      | Some z \<Rightarrow> Some (c - z))"

definition is_digit :: "nat \<Rightarrow> bool" where
  "is_digit c \<longleftrightarrow> digit_value c \<noteq> None"

text \<open>
  \<open>\s\<close> in a \<open>str\<close> pattern and \<open>str.strip()\<close> agree on whitespace: the code points
  for which \<open>str.isspace\<close> holds.
\<close>

definition whitespace :: "nat list" where
  "whitespace =
    [9, 10, 11, 12, 13, 28, 29, 30, 31, 32, 133, 160, 5760, 8192, 8193, 8194, 8195, 8196,
     8197, 8198, 8199, 8200, 8201, 8202, 8232, 8233, 8239, 8287, 12288]"

definition is_space :: "nat \<Rightarrow> bool" where
  "is_space c \<longleftrightarrow> c \<in> set whitespace"

text \<open>The character class \<open>[:\s]\<close>.\<close>

definition is_sep :: "nat \<Rightarrow> bool" where
  "is_sep c \<longleftrightarrow> c = 58 \<or> is_space c"

text \<open>\<open>str.strip()\<close> without argument.\<close>

definition strip :: "ustring \<Rightarrow> ustring" where
  "strip s = rev (dropWhile is_space (rev (dropWhile is_space s)))"

text \<open>
  The exceptions of the library calls, as CPython 3.11 raises them: the class, and the
  message with the values that its text quotes.

  \<^item> \<open>Invalid_literal s\<close>: invalid literal for int() with base 10, followed by the string;
  \<^item> \<open>Exceeds_digit_limit n\<close>: Exceeds the limit (4300 digits) for integer string
    conversion: value has \<open>n\<close> digits;
  \<^item> \<open>Int_too_large\<close>: Python int too large to convert to C int;
  \<^item> \<open>Days_magnitude k\<close>: days=\<open>k\<close>; must have magnitude <= 999999999;
  \<^item> \<open>Date_out_of_range\<close>: date value out of range.
\<close>

datatype message =
    Invalid_literal ustring
  | Exceeds_digit_limit nat
  | Int_too_large
  | Days_magnitude int
  | Date_out_of_range

datatype error = ValueError message | OverflowError message

text \<open>
  \<open>int(s)\<close> for the strings that reach it in this program, the first group of a match:
  the digits are read in base ten, each with its Unicode digit value. Python integers
  are unbounded, but \<open>int()\<close> refuses a string of more than
  \<open>sys.int_info.default_max_str_digits\<close> digits, leading zeros counted. \<open>None\<close> stands
  for the \<open>ValueError\<close> that \<open>int()\<close> raises then, or on an empty string or a character
  that is no digit. (A sign, underscores and surrounding whitespace, which \<open>int()\<close> reads
  as well, cannot occur in that group and are left out.)
\<close>

definition max_str_digits :: nat where
  "max_str_digits = 4300"

fun int_digits :: "int \<Rightarrow> ustring \<Rightarrow> int option" where
  "int_digits acc [] = Some acc"
| "int_digits acc (c # cs) =
     (case digit_value c of
        None \<Rightarrow> None
      | Some v \<Rightarrow> int_digits (10 * acc + int v) cs)"

definition py_int :: "ustring \<Rightarrow> int option" where
  "py_int s = (if s = [] \<or> max_str_digits < length s then None else int_digits 0 s)"

text \<open>
  The \<open>ValueError\<close> that \<open>int(s)\<close> raises when it raises: a string of digits can only be
  too long.
\<close>

definition int_error :: "ustring \<Rightarrow> error" where
  "int_error s =
     (if s \<noteq> [] \<and> list_all is_digit s then ValueError (Exceeds_digit_limit (length s))
      else ValueError (Invalid_literal s))"

text \<open>The decimal text of a natural number, as an f-string field renders it.\<close>

function decimal :: "nat \<Rightarrow> ustring" where
  "decimal n = (if n < 10 then [48 + n] else decimal (n div 10) @ [48 + n mod 10])"
  by pat_completeness auto
termination
  by (relation "measure id") auto

declare decimal.simps [simp del]

section \<open>The day pattern\<close>

text \<open>
  \<^verbatim>\<open>day_pattern = re.compile(r'Day (\d+)[:\s]+(.*?)(?=Day \d+|$)', re.DOTALL)\<close>

  \<open>day_digit s\<close>: \<open>s\<close> starts with the text \<open>Day\<close>, a space and a decimal digit, which is
  what the first alternative of the lookahead asks for.
\<close>

fun day_digit :: "ustring \<Rightarrow> bool" where
  "day_digit (c1 # c2 # c3 # c4 # d # _) \<longleftrightarrow>
     c1 = 68 \<and> c2 = 97 \<and> c3 = 121 \<and> c4 = 32 \<and> is_digit d"
| "day_digit _ \<longleftrightarrow> False"

text \<open>
  The lookahead \<open>(?=Day \d+|$)\<close> at the position where \<open>s\<close> is the rest of the text.
  Without \<open>re.MULTILINE\<close>, \<open>$\<close> holds at the end of the text and just before a line feed
  that is its last character.
\<close>

definition lookahead :: "ustring \<Rightarrow> bool" where
  "lookahead s \<longleftrightarrow> day_digit s \<or> s = [] \<or> s = [10]"

text \<open>
  The lazy group \<open>(.*?)\<close> under \<open>re.DOTALL\<close>: it takes characters of any kind, as few
  as possible, until the lookahead holds. The result is the captured text and the
  rest of the input, where the match ends.
\<close>

fun lazy_content :: "ustring \<Rightarrow> ustring \<times> ustring" where
  "lazy_content [] = ([], [])"
| "lazy_content (c # cs) =
     (if lookahead (c # cs) then ([], c # cs)
      else (case lazy_content cs of (content, rest) \<Rightarrow> (c # content, rest)))"

text \<open>
  One attempt to match the pattern at the start of \<open>s\<close>. The greedy \<open>\d+\<close> takes the
  whole run of digits and the greedy \<open>[:\s]+\<close> the whole run of separators; giving a
  digit back cannot help, since the character after it is then a digit, which is no
  separator, and giving a separator back is never asked for, since the lazy group
  always finds the end of the text. The result is the two groups and the rest of the
  input after the match.
\<close>

fun strip_day :: "ustring \<Rightarrow> ustring option" where
  "strip_day (c1 # c2 # c3 # c4 # r) =
     (if c1 = 68 \<and> c2 = 97 \<and> c3 = 121 \<and> c4 = 32 then Some r else None)"
| "strip_day _ = None"

definition match_at :: "ustring \<Rightarrow> (ustring \<times> ustring \<times> ustring) option" where
  "match_at s =
     (case strip_day s of
        None \<Rightarrow> None
      | Some r \<Rightarrow>
          let day_num = takeWhile is_digit r;
              r1 = dropWhile is_digit r;
              seps = takeWhile is_sep r1;
              r2 = dropWhile is_sep r1
          in if day_num = [] \<or> seps = [] then None
             else (case lazy_content r2 of (content, rest) \<Rightarrow> Some (day_num, content, rest)))"

lemma lazy_content_length: "length (snd (lazy_content s)) \<le> length s"
  by (induction s) (auto split: prod.splits)

lemma strip_day_Some: "strip_day s = Some r \<longleftrightarrow> s = 68 # 97 # 121 # 32 # r"
  by (cases s rule: strip_day.cases) auto

lemma match_at_shorter:
  assumes "match_at s = Some (day_num, content, rest)"
  shows "length rest < length s"
proof -
  from assms obtain r where r: "s = 68 # 97 # 121 # 32 # r"
    by (auto simp: match_at_def strip_day_Some split: option.splits)
  let ?r2 = "dropWhile is_sep (dropWhile is_digit r)"
  from assms r have "rest = snd (lazy_content ?r2)"
    by (auto simp: match_at_def Let_def split: if_splits prod.splits)
  then have "length rest \<le> length ?r2"
    by (simp add: lazy_content_length)
  also have "\<dots> \<le> length r"
    by (meson le_trans length_dropWhile_le)
  finally show ?thesis using r by simp
qed

text \<open>
  \<open>day_pattern.findall(plan_text)\<close>: the scan tries each position from left to right;
  after a match it goes on where the match ended (a match is never empty), otherwise one
  character further. Each match contributes the pair of its two groups.
\<close>

function findall :: "ustring \<Rightarrow> (ustring \<times> ustring) list" where
  "findall [] = []"
| "findall (c # cs) =
     (case match_at (c # cs) of
        None \<Rightarrow> findall cs
      | Some (day_num, content, rest) \<Rightarrow> (day_num, content) # findall rest)"
  by pat_completeness auto
termination
  by (relation "measure length") (auto dest: match_at_shorter)

section \<open>Dates and the clock\<close>

text \<open>
  A \<open>date\<close> is its proleptic Gregorian ordinal (\<open>date.toordinal()\<close>): day 1 is
  0001-01-01, the least date, and day 3652059 is 9999-12-31, the greatest one. A
  \<open>datetime\<close> is a date and a time of day.
\<close>

type_synonym date = int

record datetime =
  ordinal :: date
  hour :: nat
  minute :: nat
  second :: nat
  microsecond :: nat

definition MINORD :: int where
  "MINORD = 1"

definition MAXORD :: int where
  "MAXORD = 3652059"


text \<open>The ordinal of the date \<open>date(y, m, d)\<close>, as the datetime module computes it.\<close>

definition is_leap :: "int \<Rightarrow> bool" where
  "is_leap y \<longleftrightarrow> y mod 4 = 0 \<and> (y mod 100 \<noteq> 0 \<or> y mod 400 = 0)"

definition days_before_year :: "int \<Rightarrow> int" where
  "days_before_year y = (y - 1) * 365 + (y - 1) div 4 - (y - 1) div 100 + (y - 1) div 400"

definition days_before_month :: "int \<Rightarrow> nat \<Rightarrow> int" where
  "days_before_month y m =
     [- 1, 0, 31, 59, 90, 120, 151, 181, 212, 243, 273, 304, 334] ! m
       + (if 2 < m \<and> is_leap y then 1 else 0)"

definition ymd2ord :: "int \<Rightarrow> nat \<Rightarrow> nat \<Rightarrow> date" where
  "ymd2ord y m d = days_before_year y + days_before_month y m + int d"

text \<open>
  \<open>timedelta(days=k)\<close> raises \<open>OverflowError\<close> beyond 999999999 days in either
  direction: with the message that quotes \<open>k\<close> when \<open>k\<close> fits a C \<open>int\<close>, and with the
  message of the failed conversion to a C \<open>int\<close> otherwise. Only the days of a
  \<open>timedelta\<close> are used, so it is modelled by them.
\<close>

definition timedelta :: "int \<Rightarrow> error + int" where
  "timedelta days =
     (if days < - 2147483648 \<or> 2147483647 < days then Inl (OverflowError Int_too_large)
      else if 999999999 < \<bar>days\<bar> then Inl (OverflowError (Days_magnitude days))
      else Inr days)"

text \<open>
  \<open>dt + delta\<close> moves the date and keeps the time of day; it raises \<open>OverflowError\<close>
  when the date leaves the range of representable dates.
\<close>

definition datetime_add :: "datetime \<Rightarrow> int \<Rightarrow> error + datetime" where
  "datetime_add dt days =
     (let ord = ordinal dt + days
      in if MINORD \<le> ord \<and> ord \<le> MAXORD then Inr (dt\<lparr>ordinal := ord\<rparr>)
         else Inl (OverflowError Date_out_of_range))"

text \<open>
  \<open>datetime.today()\<close> and \<open>datetime.now()\<close> read the ambient clock. The clock is the
  sequence of its readings; the number of readings taken so far is the state that the
  program threads through.
\<close>

type_synonym clock = "nat \<Rightarrow> datetime"

definition frozen :: "datetime \<Rightarrow> clock" where
  "frozen t = (\<lambda>_. t)"

text \<open>Midnight of 2024-01-01, the start date of the examples.\<close>

definition new_year_2024 :: datetime where
  "new_year_2024 =
     \<lparr>ordinal = ymd2ord 2024 1 1, hour = 0, minute = 0, second = 0, microsecond = 0\<rparr>"

section \<open>Calendar documents\<close>

text \<open>
  An \<open>Event\<close> with the five properties the program adds to it, and a \<open>Calendar\<close> with
  its two properties and its components in the order of \<open>add_component\<close>.
\<close>

record event =
  summary :: ustring
  description :: ustring
  dtstart :: date
  dtend :: date
  dtstamp :: datetime

record calendar =
  prodid :: ustring
  version :: ustring
  components :: "event list"

section \<open>generate_ics_content\<close>

text \<open>The two summaries: the fixed one of the fallback event and the f-string of a day.\<close>

definition trip_summary :: ustring where
  "trip_summary = [26053, 34892, 34892, 31243]"

definition day_summary :: "int \<Rightarrow> ustring" where
  "day_summary day_num = [31532, 32] @ decimal (nat day_num) @ [32, 22825, 34892, 31243]"

text \<open>
  The body of the loop over \<open>days\<close>, for one pair of the list. \<open>n\<close> is the number of
  clock readings taken so far; the body takes one more.
\<close>

definition day_event :: "clock \<Rightarrow> nat \<Rightarrow> datetime \<Rightarrow> ustring \<times> ustring \<Rightarrow> error + event" where
  "day_event clk n start_date day =
     (case day of (day_num, day_content) \<Rightarrow>
     (case py_int day_num of
        None \<Rightarrow> Inl (int_error day_num)
      | Some day_num \<Rightarrow>
     (case timedelta (day_num - 1) of
        Inl e \<Rightarrow> Inl e
      | Inr delta \<Rightarrow>
     (case datetime_add start_date delta of
        Inl e \<Rightarrow> Inl e
      | Inr current_date \<Rightarrow>
          Inr \<lparr>summary = day_summary day_num,
               description = strip day_content,
               dtstart = ordinal current_date,
               dtend = ordinal current_date,
               dtstamp = clk n\<rparr>))))"

text \<open>
  The loop. An exception ends the whole call, so no event of an earlier day survives it.
\<close>

fun process_days ::
  "clock \<Rightarrow> nat \<Rightarrow> datetime \<Rightarrow> (ustring \<times> ustring) list \<Rightarrow> error + event list" where
  "process_days clk n start_date [] = Inr []"
| "process_days clk n start_date (day # days) =
     (case day_event clk n start_date day of
        Inl e \<Rightarrow> Inl e
      | Inr event \<Rightarrow>
     (case process_days clk (Suc n) start_date days of
        Inl e \<Rightarrow> Inl e
      | Inr events \<Rightarrow> Inr (event # events)))"

text \<open>
  \<^verbatim>\<open>if start_date is None: start_date = datetime.today()\<close>
  yields the start date in use and the number of clock readings taken: an omitted
  \<open>start_date\<close> costs one reading.
\<close>

definition default_start :: "clock \<Rightarrow> datetime option \<Rightarrow> datetime \<times> nat" where
  "default_start clk start_date = (case start_date of None \<Rightarrow> (clk 0, 1) | Some d \<Rightarrow> (d, 0))"

text \<open>The calendar that the function has built when it reaches its last line.\<close>

definition build_calendar :: "clock \<Rightarrow> ustring \<Rightarrow> datetime option \<Rightarrow> error + calendar" where
  "build_calendar clk plan_text start_date =
     (let (start_date, n) = default_start clk start_date;
          days = findall plan_text
      in if days = [] then
           Inr \<lparr>prodid = unicode ''-//AI Travel Planner//github.com//'',
                version = unicode ''2.0'',
                components =
                  [\<lparr>summary = trip_summary,
                    description = plan_text,
                    dtstart = ordinal start_date,
                    dtend = ordinal start_date,
                    dtstamp = clk n\<rparr>]\<rparr>
         else
           (case process_days clk n start_date days of
              Inl e \<Rightarrow> Inl e
            | Inr events \<Rightarrow>
                Inr \<lparr>prodid = unicode ''-//AI Travel Planner//github.com//'',
                     version = unicode ''2.0'',
                     components = events\<rparr>))"

text \<open>
  The last line, \<open>return cal.to_ical()\<close>, hands the calendar to the serialiser of the
  icalendar library, which is a parameter here: what the call returns is the
  serialiser's image of the calendar built. \<open>'bytes\<close> stands for whatever a call of the
  serialiser ends in, so that nothing is assumed about the library.
\<close>

definition generate_ics_content ::
  "(calendar \<Rightarrow> 'bytes) \<Rightarrow> clock \<Rightarrow> ustring \<Rightarrow> datetime option \<Rightarrow> error + 'bytes" where
  "generate_ics_content to_ical clk plan_text start_date =
     (case build_calendar clk plan_text start_date of
        Inl e \<Rightarrow> Inl e
      | Inr cal \<Rightarrow> Inr (to_ical cal))"

section \<open>Calendars apart from their timestamps\<close>

text \<open>
  What an event and a calendar show apart from the generation timestamps: every property
  but \<open>dtstamp\<close>. These two projections serve to compare runs of the function under
  different clocks.
\<close>

definition event_sans_dtstamp :: "event \<Rightarrow> ustring \<times> ustring \<times> date \<times> date" where
  "event_sans_dtstamp e = (summary e, description e, dtstart e, dtend e)"

definition sans_dtstamp ::
  "calendar \<Rightarrow> ustring \<times> ustring \<times> (ustring \<times> ustring \<times> date \<times> date) list" where
  "sans_dtstamp cal = (prodid cal, version cal, map event_sans_dtstamp (components cal))"

section \<open>Evaluation on ASCII text\<close>

lemma ymd2ord_examples:
  "ymd2ord 1 1 1 = MINORD" "ymd2ord 2024 1 1 = 738886" "ymd2ord 2024 3 1 = 738946"
  "ymd2ord 9999 12 31 = MAXORD"
  by (simp_all add: ymd2ord_def days_before_year_def days_before_month_def is_leap_def
      MINORD_def MAXORD_def)

text \<open>
  Below the first non-ASCII digit and the first non-ASCII whitespace the two tables
  reduce to intervals, which lets the simplifier run the model on ASCII examples.
\<close>

lemma digit_value_low:
  "c < 1632 \<Longrightarrow> digit_value c = (if 48 \<le> c \<and> c < 58 then Some (c - 48) else None)"
  by (simp add: digit_value_def nd_zeros_def)

lemma is_digit_low: "c < 1632 \<Longrightarrow> is_digit c \<longleftrightarrow> 48 \<le> c \<and> c < 58"
  by (simp add: is_digit_def digit_value_low)

lemma is_space_low:
  "c < 133 \<Longrightarrow> is_space c \<longleftrightarrow> (9 \<le> c \<and> c \<le> 13) \<or> (28 \<le> c \<and> c \<le> 32)"
  by (auto simp add: is_space_def whitespace_def)

lemma is_sep_low:
  "c < 133 \<Longrightarrow> is_sep c \<longleftrightarrow> c = 58 \<or> (9 \<le> c \<and> c \<le> 13) \<or> (28 \<le> c \<and> c \<le> 32)"
  by (simp add: is_sep_def is_space_low)

text \<open>
  A day number in Arabic-Indic digits: U+0663 is a digit of value three, for the pattern
  and for \<open>int()\<close> alike.
\<close>

lemma arabic_indic_example:
  "findall [68, 97, 121, 32, 1635, 58, 32, 120] = [([1635], [120])]"
  "py_int [1635] = Some 3"
  by (simp_all add: match_at_def lookahead_def is_digit_def is_sep_low py_int_def
      max_str_digits_def digit_value_def nd_zeros_def)

lemmas eval_simps =
  unicode_def match_at_def lookahead_def is_digit_low is_sep_low is_space_low
  digit_value_low strip_def py_int_def max_str_digits_def int_error_def timedelta_def
  datetime_add_def MINORD_def MAXORD_def
  ymd2ord_def days_before_year_def days_before_month_def is_leap_def day_event_def

section \<open>The lazy group\<close>

text \<open>
  The lazy group splits its input, stops where the lookahead holds, and stops at the
  first such position.
\<close>

lemma lazy_content_append: "lazy_content x = (c, r) \<Longrightarrow> x = c @ r"
  by (induction x arbitrary: c r) (auto split: if_splits prod.splits)

lemma lazy_content_lookahead: "lazy_content x = (c, r) \<Longrightarrow> lookahead r"
  by (induction x arbitrary: c r) (auto simp: lookahead_def split: if_splits prod.splits)

lemma lazy_content_minimal:
  "lazy_content x = (c, r) \<Longrightarrow> x = u @ v \<Longrightarrow> lookahead v \<Longrightarrow> length c \<le> length u"
proof (induction x arbitrary: c r u)
  case Nil
  then show ?case by simp
next
  case (Cons a x)
  show ?case
  proof (cases "lookahead (a # x)")
    case True
    with Cons.prems(1) have "c = []" by simp
    then show ?thesis by simp
  next
    case False
    with Cons.prems(2,3) obtain u' where u: "u = a # u'" "x = u' @ v"
      by (cases u) auto
    from False Cons.prems(1) obtain c' where c: "c = a # c'" "lazy_content x = (c', r)"
      by (auto split: prod.splits)
    from Cons.IH [OF c(2) u(2) Cons.prems(3)] u c show ?thesis by simp
  qed
qed

lemma lazy_content_suffix:
  "suffix s x \<Longrightarrow> lookahead s \<Longrightarrow> suffix s (snd (lazy_content x))"
  by (induction x) (auto simp: suffix_Cons split: prod.splits)

section \<open>One match\<close>

text \<open>
  The shape of the text that a match covers, and the fact that a later match cannot start
  inside an earlier one: it starts with \<open>D\<close>, which is neither a digit nor a separator,
  and the lazy group of the earlier match stops in front of it at the latest.
\<close>

lemma match_atD:
  assumes "match_at s = Some (ds, c, r)"
  shows "\<exists>seps. s = [68, 97, 121, 32] @ ds @ seps @ c @ r \<and>
           ds \<noteq> [] \<and> (\<forall>d\<in>set ds. is_digit d) \<and>
           seps \<noteq> [] \<and> (\<forall>x\<in>set seps. is_sep x) \<and>
           lazy_content (c @ r) = (c, r)"
proof -
  from assms obtain r0 where s: "s = 68 # 97 # 121 # 32 # r0"
    by (auto simp: match_at_def strip_day_Some split: option.splits)
  let ?r1 = "dropWhile is_digit r0"
  let ?r2 = "dropWhile is_sep ?r1"
  from assms s have ds: "ds = takeWhile is_digit r0" "ds \<noteq> []"
    and seps: "takeWhile is_sep ?r1 \<noteq> []"
    and lz: "lazy_content ?r2 = (c, r)"
    by (auto simp: match_at_def Let_def split: if_splits prod.splits)
  from lz have r2: "?r2 = c @ r" by (rule lazy_content_append)
  have "r0 = ds @ takeWhile is_sep ?r1 @ ?r2"
    by (simp add: ds(1))
  with s r2 have "s = [68, 97, 121, 32] @ ds @ takeWhile is_sep ?r1 @ c @ r"
    by simp
  moreover have "\<forall>d\<in>set ds. is_digit d"
    using ds(1) by (auto dest: set_takeWhileD)
  moreover have "\<forall>x\<in>set (takeWhile is_sep ?r1). is_sep x"
    by (auto dest: set_takeWhileD)
  ultimately show ?thesis using ds(2) seps lz r2 by auto
qed

lemma match_at_day_digit: "match_at s = Some m \<Longrightarrow> day_digit s"
  by (cases s rule: day_digit.cases)
     (auto simp: match_at_def Let_def takeWhile_eq_Nil_iff split: if_splits list.splits)

lemma not_digit_D: "\<not> is_digit 68" and not_sep_D: "\<not> is_sep 68"
  by (simp_all add: is_digit_low is_sep_low)

lemma day_digit_hd: "day_digit s \<Longrightarrow> s \<noteq> [] \<and> hd s = 68"
  by (cases s rule: day_digit.cases) auto

lemma day_digit_append: "day_digit v \<Longrightarrow> day_digit (v @ w)"
  by (cases v rule: day_digit.cases) auto

lemma suffix_dropWhile:
  "suffix s xs \<Longrightarrow> s \<noteq> [] \<Longrightarrow> \<not> P (hd s) \<Longrightarrow> suffix s (dropWhile P xs)"
  by (induction xs) (auto simp: suffix_Cons)

lemma match_at_skips:
  assumes m: "match_at t = Some (ds, c, r)"
    and s: "suffix s t" "s \<noteq> t" "day_digit s"
  shows "suffix s r"
proof -
  from m obtain r0 where t: "t = 68 # 97 # 121 # 32 # r0"
    by (auto simp: match_at_def strip_day_Some split: option.splits)
  from day_digit_hd [OF s(3)] have hd: "s \<noteq> []" "hd s = 68" by auto
  from s(1,2) t hd have "suffix s r0"
    by (auto simp: suffix_Cons)
  then have "suffix s (dropWhile is_sep (dropWhile is_digit r0))"
    using hd by (simp add: suffix_dropWhile not_digit_D not_sep_D)
  then have "suffix s (snd (lazy_content (dropWhile is_sep (dropWhile is_digit r0))))"
    using s(3) by (simp add: lazy_content_suffix lookahead_def)
  moreover from m t have "r = snd (lazy_content (dropWhile is_sep (dropWhile is_digit r0)))"
    by (auto simp: match_at_def Let_def split: if_splits prod.splits)
  ultimately show ?thesis by simp
qed

lemma no_D_no_marker:
  assumes "68 \<notin> set p"
  shows "\<forall>q. q \<noteq> [] \<and> suffix q p \<longrightarrow> match_at (q @ t) = None"
proof (intro allI impI)
  fix q assume q: "q \<noteq> [] \<and> suffix q p"
  then have "hd q \<in> set p"
    by (metis hd_in_set set_mono_suffix subsetD)
  with assms have ne: "hd (q @ t) \<noteq> 68"
    using q by auto
  show "match_at (q @ t) = None"
  proof (cases "match_at (q @ t)")
    case None
    then show ?thesis .
  next
    case (Some m)
    then have "hd (q @ t) = 68"
      by (simp add: match_at_day_digit day_digit_hd)
    with ne show ?thesis by simp
  qed
qed

section \<open>The scan\<close>

text \<open>
  Every segment comes from a match at some position, every match at some position gives
  a segment, and text in front of the first match leaves the result as it is.
\<close>

lemma findall_segments:
  "(ds, c) \<in> set (findall t) \<Longrightarrow> \<exists>s r. suffix s t \<and> match_at s = Some (ds, c, r)"
proof (induction t rule: findall.induct)
  case 1
  then show ?case by simp
next
  case (2 x xs)
  show ?case
  proof (cases "match_at (x # xs)")
    case None
    with 2 show ?thesis by (auto simp: suffix_Cons)
  next
    case (Some m)
    obtain ds' c' r' where m: "m = (ds', c', r')" by (cases m)
    show ?thesis
    proof (cases "(ds, c) = (ds', c')")
      case True
      with Some m show ?thesis by auto
    next
      case False
      with "2.prems" Some m have "(ds, c) \<in> set (findall r')" by auto
      from "2.IH"(2) [OF Some m [symmetric] refl this]
      obtain s r where sr: "suffix s r'" "match_at s = Some (ds, c, r)" by auto
      from Some m have "suffix r' (x # xs)"
        by (auto dest!: match_atD simp: suffix_def)
      with sr show ?thesis by (meson suffix_order.trans)
    qed
  qed
qed

lemma findall_recognises:
  "suffix s t \<Longrightarrow> match_at s = Some (ds, c, r) \<Longrightarrow> (ds, c) \<in> set (findall t)"
proof (induction t rule: findall.induct)
  case 1
  then show ?case by (simp add: match_at_def)
next
  case (2 x xs)
  show ?case
  proof (cases "s = x # xs")
    case True
    with "2.prems" show ?thesis by simp
  next
    case ne: False
    show ?thesis
    proof (cases "match_at (x # xs)")
      case None
      with 2 ne show ?thesis by (auto simp: suffix_Cons)
    next
      case (Some m)
      obtain ds' c' r' where m: "m = (ds', c', r')" by (cases m)
      from "2.prems"(2) have "day_digit s" by (rule match_at_day_digit)
      with Some m "2.prems"(1) ne have "suffix s r'"
        by (auto intro: match_at_skips)
      from "2.IH"(2) [OF Some m [symmetric] refl this "2.prems"(2)] Some m
      show ?thesis by simp
    qed
  qed
qed

lemma findall_Nil_iff: "findall t = [] \<longleftrightarrow> (\<forall>q. suffix q t \<longrightarrow> match_at q = None)"
proof
  assume "findall t = []"
  then show "\<forall>q. suffix q t \<longrightarrow> match_at q = None"
    by (metis findall_recognises empty_iff list.set(1) not_Some_eq prod_cases3)
next
  assume "\<forall>q. suffix q t \<longrightarrow> match_at q = None"
  then show "findall t = []"
    by (induction t rule: findall.induct) (auto simp: suffix_Cons)
qed

lemma findall_preamble:
  "(\<forall>q. q \<noteq> [] \<and> suffix q p \<longrightarrow> match_at (q @ t) = None) \<Longrightarrow> findall (p @ t) = findall t"
proof (induction p)
  case Nil
  then show ?case by simp
next
  case (Cons a p)
  from Cons.prems have "match_at ((a # p) @ t) = None"
    by (metis list.distinct(1) suffix_order.refl)
  moreover from Cons.prems have "\<forall>q. q \<noteq> [] \<and> suffix q p \<longrightarrow> match_at (q @ t) = None"
    by (simp add: suffix_Cons)
  ultimately show ?case using Cons.IH by simp
qed

section \<open>Day numbers\<close>

text \<open>
  The first group of a match is a non-empty string of digits, so \<open>int()\<close> raises on it
  only when it has more than \<open>max_str_digits\<close> digits, and its value is not negative.
\<close>

lemma int_digits_Some:
  "\<forall>d\<in>set ds. is_digit d \<Longrightarrow> 0 \<le> acc \<Longrightarrow> \<exists>v. int_digits acc ds = Some v \<and> 0 \<le> v"
proof (induction ds arbitrary: acc)
  case Nil
  then show ?case by simp
next
  case (Cons d ds)
  from Cons.prems(1) obtain v where v: "digit_value d = Some v"
    by (auto simp: is_digit_def)
  have "0 \<le> 10 * acc + int v" using Cons.prems(2) by simp
  from Cons.IH [OF _ this] Cons.prems(1) v show ?case by simp
qed


lemma py_int_digits:
  "ds \<noteq> [] \<Longrightarrow> \<forall>d\<in>set ds. is_digit d \<Longrightarrow> length ds \<le> max_str_digits \<Longrightarrow>
   \<exists>N. py_int ds = Some N \<and> 0 \<le> N"
  using int_digits_Some [of ds 0] by (simp add: py_int_def)









section \<open>The loop\<close>

text \<open>
  When the body of the loop yields an event and when it raises; the loop yields the
  events of all its rounds, or the error of the first round that raises.
\<close>

lemma day_event_Inr_iff:
  "day_event clk n start (ds, c) = Inr ev \<longleftrightarrow>
     (\<exists>N. py_int ds = Some N \<and> \<bar>N - 1\<bar> \<le> 999999999 \<and>
          MINORD \<le> ordinal start + (N - 1) \<and> ordinal start + (N - 1) \<le> MAXORD \<and>
          ev = \<lparr>summary = day_summary N, description = strip c,
                dtstart = ordinal start + (N - 1), dtend = ordinal start + (N - 1),
                dtstamp = clk n\<rparr>)"
  by (auto simp: day_event_def timedelta_def datetime_add_def Let_def split: option.splits)


lemma process_days_Inr_iff:
  "process_days clk n start segs = Inr evs \<longleftrightarrow>
     length evs = length segs \<and>
     (\<forall>i<length segs. day_event clk (n + i) start (segs ! i) = Inr (evs ! i))"
proof (induction segs arbitrary: n evs)
  case Nil
  then show ?case by auto
next
  case (Cons seg segs)
  show ?case
  proof (cases evs)
    case Nil
    then show ?thesis by (auto split: sum.splits)
  next
    case (Cons ev evs')
    have "(\<forall>i<Suc (length segs). day_event clk (n + i) start ((seg # segs) ! i) = Inr ((ev # evs') ! i))
       \<longleftrightarrow> day_event clk n start seg = Inr ev \<and>
           (\<forall>i<length segs. day_event clk (Suc n + i) start (segs ! i) = Inr (evs' ! i))"
      by (auto simp: less_Suc_eq_0_disj)
    with Cons Cons.IH [of "Suc n" evs'] show ?thesis
      by (auto split: sum.splits)
  qed
qed






lemma day_event_cong:
  "clk1 n1 = clk2 n2 \<Longrightarrow> day_event clk1 n1 start seg = day_event clk2 n2 start seg"
  by (auto simp: day_event_def split: prod.splits option.splits sum.splits)

lemma process_days_cong:
  "(\<forall>i<length segs. clk1 (n1 + i) = clk2 (n2 + i)) \<Longrightarrow>
   process_days clk1 n1 start segs = process_days clk2 n2 start segs"
proof (induction segs arbitrary: n1 n2)
  case Nil
  then show ?case by simp
next
  case (Cons seg segs)
  from Cons.prems have 0: "clk1 n1 = clk2 n2" by auto
  from Cons.prems have "\<forall>i<length segs. clk1 (Suc n1 + i) = clk2 (Suc n2 + i)"
    by auto
  with Cons.IH [of "Suc n1" "Suc n2"]
  have "process_days clk1 (Suc n1) start segs = process_days clk2 (Suc n2) start segs"
    by simp
  with day_event_cong [of clk1 n1 clk2 n2 start seg, OF 0] show ?case
    by (auto split: sum.splits)
qed

lemma day_event_sans:
  "ordinal s1 = ordinal s2 \<Longrightarrow>
   map_sum id event_sans_dtstamp (day_event clk1 n1 s1 seg) =
   map_sum id event_sans_dtstamp (day_event clk2 n2 s2 seg)"
  by (simp add: day_event_def event_sans_dtstamp_def datetime_add_def Let_def
      split: prod.splits option.splits sum.splits)

lemma process_days_sans:
  "ordinal s1 = ordinal s2 \<Longrightarrow>
   map_sum id (map event_sans_dtstamp) (process_days clk1 n1 s1 segs) =
   map_sum id (map event_sans_dtstamp) (process_days clk2 n2 s2 segs)"
proof (induction segs arbitrary: n1 n2)
  case Nil
  then show ?case by simp
next
  case (Cons seg segs)
  from day_event_sans [OF Cons.prems, of clk1 n1 seg clk2 n2]
    Cons.IH [OF Cons.prems, of "Suc n1" "Suc n2"]
  show ?case
    by (auto split: sum.splits)
qed

section \<open>Stripping whitespace\<close>

lemma rev_split: "xs = rev (dropWhile P (rev xs)) @ rev (takeWhile P (rev xs))"
  by (metis rev_append rev_rev_ident takeWhile_dropWhile_id)

lemma strip_decompose:
  "\<exists>l r. c = l @ strip c @ r \<and> (\<forall>x\<in>set l. is_space x) \<and> (\<forall>x\<in>set r. is_space x)"
proof -
  let ?d = "dropWhile is_space c"
  have d: "?d = strip c @ rev (takeWhile is_space (rev ?d))"
    unfolding strip_def by (rule rev_split)
  have "c = takeWhile is_space c @ ?d" by simp
  with d have "c = takeWhile is_space c @ strip c @ rev (takeWhile is_space (rev ?d))"
    by simp
  moreover have "\<forall>x\<in>set (takeWhile is_space c). is_space x"
    by (auto dest: set_takeWhileD)
  moreover have "\<forall>x\<in>set (rev (takeWhile is_space (rev ?d))). is_space x"
    by (auto dest: set_takeWhileD)
  ultimately show ?thesis by blast
qed

lemma strip_ends:
  assumes "strip c \<noteq> []"
  shows "\<not> is_space (hd (strip c)) \<and> \<not> is_space (last (strip c))"
proof -
  let ?d = "dropWhile is_space c"
  let ?e = "dropWhile is_space (rev ?d)"
  from assms have e: "?e \<noteq> []" by (simp add: strip_def)
  then have "\<not> is_space (hd ?e)" by (rule hd_dropWhile)
  then have l: "\<not> is_space (last (strip c))"
    using e by (simp add: strip_def last_rev)
  from e have "rev ?d \<noteq> []" by (metis dropWhile.simps(1))
  then have "?d \<noteq> []" by simp
  then have hd: "\<not> is_space (hd ?d)" by (rule hd_dropWhile)
  have "?d = strip c @ rev (takeWhile is_space (rev ?d))"
    unfolding strip_def by (rule rev_split)
  with assms have "hd ?d = hd (strip c)"
    by (metis hd_append2)
  with hd l show ?thesis by simp
qed

section \<open>The calendar built\<close>

lemma build_calendar_fallback:
  "findall plan_text = [] \<Longrightarrow>
   build_calendar clk plan_text start_date =
     Inr \<lparr>prodid = unicode ''-//AI Travel Planner//github.com//'',
          version = unicode ''2.0'',
          components =
            [\<lparr>summary = trip_summary,
              description = plan_text,
              dtstart = ordinal (fst (default_start clk start_date)),
              dtend = ordinal (fst (default_start clk start_date)),
              dtstamp = clk (snd (default_start clk start_date))\<rparr>]\<rparr>"
  by (simp add: build_calendar_def split: prod.splits)

lemma build_calendar_days:
  "findall plan_text \<noteq> [] \<Longrightarrow>
   build_calendar clk plan_text start_date =
     (case process_days clk (snd (default_start clk start_date))
             (fst (default_start clk start_date)) (findall plan_text) of
        Inl e \<Rightarrow> Inl e
      | Inr events \<Rightarrow>
          Inr \<lparr>prodid = unicode ''-//AI Travel Planner//github.com//'',
               version = unicode ''2.0'',
               components = events\<rparr>)"
  by (simp add: build_calendar_def split: prod.splits)

lemma build_calendar_days_Inr:
  assumes "findall plan_text \<noteq> []" "build_calendar clk plan_text start_date = Inr cal"
  shows "process_days clk (snd (default_start clk start_date))
           (fst (default_start clk start_date)) (findall plan_text) = Inr (components cal)"
  using assms by (auto simp: build_calendar_days split: sum.splits)

lemma build_calendar_events:
  assumes "build_calendar clk plan_text start_date = Inr cal" "findall plan_text \<noteq> []"
  shows "length (components cal) = length (findall plan_text)"
    and "i < length (findall plan_text) \<Longrightarrow>
         day_event clk (snd (default_start clk start_date) + i)
           (fst (default_start clk start_date)) (findall plan_text ! i) = Inr (components cal ! i)"
  using build_calendar_days_Inr [OF assms(2,1)] by (simp_all add: process_days_Inr_iff)

lemma build_calendar_sans:
  assumes "ordinal (fst (default_start clk1 sd1)) = ordinal (fst (default_start clk2 sd2))"
  shows "map_sum id sans_dtstamp (build_calendar clk1 plan_text sd1) =
         map_sum id sans_dtstamp (build_calendar clk2 plan_text sd2)"
proof (cases "findall plan_text = []")
  case True
  with assms show ?thesis
    by (simp add: build_calendar_fallback sans_dtstamp_def event_sans_dtstamp_def)
next
  case False
  from process_days_sans [OF assms, of clk1 "snd (default_start clk1 sd1)" "findall plan_text"
      clk2 "snd (default_start clk2 sd2)"] False
  show ?thesis
    by (auto simp: build_calendar_days sans_dtstamp_def split: sum.splits)
qed

lemma build_calendar_cong:
  assumes "\<forall>n\<le>Suc (length (findall plan_text)). clk1 n = clk2 n"
  shows "build_calendar clk1 plan_text start_date = build_calendar clk2 plan_text start_date"
proof -
  from assms have 0: "clk1 0 = clk2 0" by simp
  then have d: "default_start clk1 start_date = default_start clk2 start_date"
    by (simp add: default_start_def split: option.splits)
  have n: "snd (default_start clk2 start_date) \<le> 1"
    by (simp add: default_start_def split: option.splits)
  show ?thesis
  proof (cases "findall plan_text = []")
    case True
    from n assms have "clk1 (snd (default_start clk2 start_date)) =
        clk2 (snd (default_start clk2 start_date))"
      by simp
    with d True show ?thesis
      by (simp add: build_calendar_fallback)
  next
    case False
    then have "1 \<le> length (findall plan_text)"
      by (cases "findall plan_text") auto
    with n assms have "\<forall>i<length (findall plan_text).
        clk1 (snd (default_start clk2 start_date) + i) = clk2 (snd (default_start clk2 start_date) + i)"
      by auto
    with process_days_cong [of "findall plan_text" clk1 "snd (default_start clk2 start_date)"
        clk2 "snd (default_start clk2 start_date)" "fst (default_start clk2 start_date)"]
    have "process_days clk1 (snd (default_start clk2 start_date))
            (fst (default_start clk2 start_date)) (findall plan_text) =
          process_days clk2 (snd (default_start clk2 start_date))
            (fst (default_start clk2 start_date)) (findall plan_text)"
      by simp
    with d False show ?thesis
      by (simp add: build_calendar_days)
  qed
qed


section \<open>The claims\<close>

text \<open>
  C1. For the text \<open>Day 1: Visit museum\<close>, line feed, \<open>Day 2: Beach\<close> and a start date
  on 2024-01-01 (at any time of day), the function returns the serialisation of a
  calendar with exactly two events: the first on 2024-01-01 with the description
  \<open>Visit museum\<close>, the second on 2024-01-02 with the description \<open>Beach\<close>.
\<close>

theorem two_day_example:
  "generate_ics_content to_ical clk (unicode ''Day 1: Visit museum\<newline>Day 2: Beach'')
     (Some \<lparr>ordinal = ymd2ord 2024 1 1, hour = h, minute = m, second = s, microsecond = us\<rparr>) =
   Inr (to_ical
     \<lparr>prodid = unicode ''-//AI Travel Planner//github.com//'',
      version = unicode ''2.0'',
      components =
        [\<lparr>summary = day_summary 1, description = unicode ''Visit museum'',
          dtstart = ymd2ord 2024 1 1, dtend = ymd2ord 2024 1 1, dtstamp = clk 0\<rparr>,
         \<lparr>summary = day_summary 2, description = unicode ''Beach'',
          dtstart = ymd2ord 2024 1 2, dtend = ymd2ord 2024 1 2, dtstamp = clk 1\<rparr>]\<rparr>)"
proof -
  have "findall (unicode ''Day 1: Visit museum\<newline>Day 2: Beach'') =
     [(unicode ''1'', unicode ''Visit museum\<newline>''), (unicode ''2'', unicode ''Beach'')]"
    by (simp add: eval_simps)
  then show ?thesis
    by (simp add: generate_ics_content_def build_calendar_def default_start_def)
       (simp add: eval_simps)
qed

text \<open>
  C2. When the day pattern matches at no position of the text, the calendar holds exactly
  one event; its start and its end are the date of the start date in use (the one
  supplied, or the first reading of the clock when none is), and its description is
  the whole text.
\<close>

theorem no_marker_single_event:
  assumes "\<forall>q. suffix q plan_text \<longrightarrow> match_at q = None"
  shows "build_calendar clk plan_text start_date =
     Inr \<lparr>prodid = unicode ''-//AI Travel Planner//github.com//'',
          version = unicode ''2.0'',
          components =
            [\<lparr>summary = trip_summary,
              description = plan_text,
              dtstart = ordinal (case start_date of None \<Rightarrow> clk 0 | Some d \<Rightarrow> d),
              dtend = ordinal (case start_date of None \<Rightarrow> clk 0 | Some d \<Rightarrow> d),
              dtstamp = clk (case start_date of None \<Rightarrow> 1 | Some d \<Rightarrow> 0)\<rparr>]\<rparr>"
proof -
  from assms have "findall plan_text = []"
    by (simp add: findall_Nil_iff)
  then show ?thesis
    by (simp add: build_calendar_fallback default_start_def split: option.splits)
qed

theorem no_marker_single_event_witness:
  "build_calendar (frozen new_year_2024) (unicode ''Day trip, no plan'') None =
     Inr \<lparr>prodid = unicode ''-//AI Travel Planner//github.com//'',
          version = unicode ''2.0'',
          components =
            [\<lparr>summary = trip_summary,
              description = unicode ''Day trip, no plan'',
              dtstart = ymd2ord 2024 1 1,
              dtend = ymd2ord 2024 1 1,
              dtstamp = new_year_2024\<rparr>]\<rparr>"
proof -
  have "findall (unicode ''Day trip, no plan'') = []"
    by (simp add: eval_simps)
  then have "\<forall>q. suffix q (unicode ''Day trip, no plan'') \<longrightarrow> match_at q = None"
    by (simp only: findall_Nil_iff)
  from no_marker_single_event [OF this, of "frozen new_year_2024" None]
  show ?thesis by (simp add: frozen_def new_year_2024_def)
qed



text \<open>
  C4. Every event of a calendar that the function builds starts and ends on the same
  date, on the fallback path and on the path with one event per day.
\<close>

theorem all_events_single_day:
  assumes "build_calendar clk plan_text start_date = Inr cal"
  shows "\<forall>e\<in>set (components cal). dtstart e = dtend e"
proof (cases "findall plan_text = []")
  case True
  with assms show ?thesis by (auto simp: build_calendar_fallback)
next
  case False
  let ?st = "fst (default_start clk start_date)" and ?n = "snd (default_start clk start_date)"
  from build_calendar_days_Inr [OF False assms]
  have len: "length (components cal) = length (findall plan_text)"
    and ev: "\<forall>i<length (findall plan_text).
      day_event clk (?n + i) ?st (findall plan_text ! i) = Inr (components cal ! i)"
    by (simp_all add: process_days_Inr_iff)
  show ?thesis
  proof
    fix e assume "e \<in> set (components cal)"
    then obtain i where i: "i < length (components cal)" "components cal ! i = e"
      by (auto simp: in_set_conv_nth)
    obtain ds c where seg: "findall plan_text ! i = (ds, c)" by (cases "findall plan_text ! i")
    from ev i len seg have "day_event clk (?n + i) ?st (ds, c) = Inr e" by auto
    then show "dtstart e = dtend e"
      by (auto simp: day_event_Inr_iff)
  qed
qed

theorem all_events_single_day_witness:
  "list_all (\<lambda>e. dtstart e = dtend e)
     (components
       \<lparr>prodid = unicode ''-//AI Travel Planner//github.com//'',
        version = unicode ''2.0'',
        components =
          [\<lparr>summary = day_summary 3, description = unicode ''Hike'',
            dtstart = ymd2ord 2024 1 3, dtend = ymd2ord 2024 1 3, dtstamp = new_year_2024\<rparr>]\<rparr>)"
proof -
  have "build_calendar (frozen new_year_2024) (unicode ''Day 3: Hike'') (Some new_year_2024) =
    Inr \<lparr>prodid = unicode ''-//AI Travel Planner//github.com//'',
        version = unicode ''2.0'',
        components =
          [\<lparr>summary = day_summary 3, description = unicode ''Hike'',
            dtstart = ymd2ord 2024 1 3, dtend = ymd2ord 2024 1 3, dtstamp = new_year_2024\<rparr>]\<rparr>"
    by (simp add: build_calendar_def default_start_def eval_simps new_year_2024_def frozen_def)
  from all_events_single_day [OF this] show ?thesis
    by (simp only: list_all_iff)
qed

text \<open>
  C5. On the path with one event per day, the events follow the segments that
  \<open>findall\<close> extracts, one event per segment and in the order of the scan through the
  text, without sorting or merging: the descriptions, the day numbers that the dates stand
  for and the clock readings are those of the segments in that order. Two \<open>Day 1\<close>
  blocks give two events, both dated the start date.
\<close>
theorem events_in_text_order:
  assumes "build_calendar clk plan_text start_date = Inr cal" "findall plan_text \<noteq> []"
  shows "map description (components cal) = map (\<lambda>seg. strip (snd seg)) (findall plan_text) \<and>
         map (\<lambda>e. Some (dtstart e - ordinal (fst (default_start clk start_date)) + 1))
           (components cal) = map (\<lambda>seg. py_int (fst seg)) (findall plan_text) \<and>
         map dtstamp (components cal) =
           map clk [snd (default_start clk start_date) ..<
                    snd (default_start clk start_date) + length (findall plan_text)]"
proof -
  note ev = build_calendar_events [OF assms]
  have *: "description (components cal ! i) = strip (snd (findall plan_text ! i)) \<and>
        Some (dtstart (components cal ! i) - ordinal (fst (default_start clk start_date)) + 1) =
          py_int (fst (findall plan_text ! i)) \<and>
        dtstamp (components cal ! i) = clk (snd (default_start clk start_date) + i)"
    if "i < length (findall plan_text)" for i
  proof -
    obtain ds c where seg: "findall plan_text ! i = (ds, c)" by (cases "findall plan_text ! i")
    from ev(2) [OF that] seg show ?thesis
      by (auto simp: day_event_Inr_iff)
  qed
  show ?thesis
    using ev(1) * by (auto intro!: nth_equalityI)
qed

theorem events_in_text_order_witness:
  "build_calendar (frozen new_year_2024) (unicode ''Day 1: Arrive\<newline>Day 1: Dinner'')
      (Some new_year_2024) =
    Inr \<lparr>prodid = unicode ''-//AI Travel Planner//github.com//'',
         version = unicode ''2.0'',
         components =
           [\<lparr>summary = day_summary 1, description = unicode ''Arrive'',
             dtstart = ordinal new_year_2024, dtend = ordinal new_year_2024,
             dtstamp = new_year_2024\<rparr>,
            \<lparr>summary = day_summary 1, description = unicode ''Dinner'',
             dtstart = ordinal new_year_2024, dtend = ordinal new_year_2024,
             dtstamp = new_year_2024\<rparr>]\<rparr> \<and>
   [unicode ''Arrive'', unicode ''Dinner''] =
     map (\<lambda>seg. strip (snd seg)) (findall (unicode ''Day 1: Arrive\<newline>Day 1: Dinner'')) \<and>
   [Some 1, Some 1] =
     map (\<lambda>seg. py_int (fst seg)) (findall (unicode ''Day 1: Arrive\<newline>Day 1: Dinner''))"
proof -
  let ?text = "unicode ''Day 1: Arrive\<newline>Day 1: Dinner''"
  have f: "findall ?text =
      [(unicode ''1'', unicode ''Arrive\<newline>''), (unicode ''1'', unicode ''Dinner'')]"
    by (simp add: eval_simps)
  then have ne: "findall ?text \<noteq> []" by simp
  have b: "build_calendar (frozen new_year_2024) ?text (Some new_year_2024) =
    Inr \<lparr>prodid = unicode ''-//AI Travel Planner//github.com//'',
         version = unicode ''2.0'',
         components =
           [\<lparr>summary = day_summary 1, description = unicode ''Arrive'',
             dtstart = ordinal new_year_2024, dtend = ordinal new_year_2024,
             dtstamp = new_year_2024\<rparr>,
            \<lparr>summary = day_summary 1, description = unicode ''Dinner'',
             dtstart = ordinal new_year_2024, dtend = ordinal new_year_2024,
             dtstamp = new_year_2024\<rparr>]\<rparr>"
    using f by (simp add: build_calendar_def default_start_def new_year_2024_def frozen_def)
       (simp add: eval_simps)
  from events_in_text_order [OF b ne] b show ?thesis
    by (simp add: default_start_def)
qed




text \<open>
  C7, the claim as stated fails on the fallback path: for a text without a day marker
  that starts and ends with a space, the description keeps both spaces, while \<open>strip\<close>
  would remove them.
\<close>

theorem fallback_description_not_stripped:
  "build_calendar (frozen new_year_2024) (unicode '' Rest '') (Some new_year_2024) =
     Inr \<lparr>prodid = unicode ''-//AI Travel Planner//github.com//'',
          version = unicode ''2.0'',
          components =
            [\<lparr>summary = trip_summary, description = unicode '' Rest '',
              dtstart = ymd2ord 2024 1 1, dtend = ymd2ord 2024 1 1,
              dtstamp = new_year_2024\<rparr>]\<rparr> \<and>
   strip (unicode '' Rest '') = unicode ''Rest'' \<and>
   unicode '' Rest '' \<noteq> unicode ''Rest''"
proof -
  have "findall (unicode '' Rest '') = []"
    by (simp add: eval_simps)
  then show ?thesis
    by (simp add: build_calendar_fallback default_start_def frozen_def new_year_2024_def)
       (simp add: eval_simps)
qed

text \<open>
  C7, as the code has it. On the path with one event per day, the description of each
  event is the content of its segment after \<open>strip\<close>; on the fallback path the
  description is the whole text, unchanged. \<open>strip\<close> removes a run of whitespace at the
  front and one at the back and nothing else: what remains neither starts nor ends with
  whitespace, and all between is as it was.
\<close>
theorem description_is_stripped_content:
  "(build_calendar clk plan_text start_date = Inr cal \<and> findall plan_text \<noteq> [] \<longrightarrow>
      map description (components cal) = map (\<lambda>seg. strip (snd seg)) (findall plan_text)) \<and>
   (build_calendar clk plan_text start_date = Inr cal \<and> findall plan_text = [] \<longrightarrow>
      map description (components cal) = [plan_text]) \<and>
   (\<exists>l r. c = l @ strip c @ r \<and> (\<forall>x\<in>set l. is_space x) \<and> (\<forall>x\<in>set r. is_space x)) \<and>
   (strip c \<noteq> [] \<longrightarrow> \<not> is_space (hd (strip c)) \<and> \<not> is_space (last (strip c)))"
proof (intro conjI impI)
  assume a: "build_calendar clk plan_text start_date = Inr cal \<and> findall plan_text \<noteq> []"
  then have len: "length (components cal) = length (findall plan_text)"
    by (auto intro: build_calendar_events(1))
  have "description (components cal ! i) = strip (snd (findall plan_text ! i))"
    if "i < length (findall plan_text)" for i
  proof -
    obtain ds c' where seg: "findall plan_text ! i = (ds, c')"
      by (cases "findall plan_text ! i")
    from a that build_calendar_events(2) [of clk plan_text start_date cal i] seg
    show ?thesis by (auto simp: day_event_Inr_iff)
  qed
  with len show "map description (components cal) =
      map (\<lambda>seg. strip (snd seg)) (findall plan_text)"
    by (auto intro!: nth_equalityI)
next
  assume "build_calendar clk plan_text start_date = Inr cal \<and> findall plan_text = []"
  then show "map description (components cal) = [plan_text]"
    by (auto simp: build_calendar_fallback)
next
  show "\<exists>l r. c = l @ strip c @ r \<and> (\<forall>x\<in>set l. is_space x) \<and> (\<forall>x\<in>set r. is_space x)"
    by (rule strip_decompose)
next
  assume "strip c \<noteq> []"
  then show "\<not> is_space (hd (strip c))" by (simp add: strip_ends)
next
  assume "strip c \<noteq> []"
  then show "\<not> is_space (last (strip c))" by (simp add: strip_ends)
qed

theorem description_is_stripped_content_witness:
  "map description
     [\<lparr>summary = day_summary 1, description = unicode ''Old  town'',
       dtstart = ymd2ord 2024 1 1, dtend = ymd2ord 2024 1 1, dtstamp = new_year_2024\<rparr>] =
   map (\<lambda>seg. strip (snd seg)) (findall (unicode ''Day 1:  Old  town '')) \<and>
   findall (unicode ''Day 1:  Old  town '') = [(unicode ''1'', unicode ''Old  town '')] \<and>
   map description
     [\<lparr>summary = trip_summary, description = unicode '' Rest '',
       dtstart = ymd2ord 2024 1 1, dtend = ymd2ord 2024 1 1, dtstamp = new_year_2024\<rparr>] =
   [unicode '' Rest ''] \<and>
   \<not> is_space (hd (strip (unicode '' Rest ''))) \<and> \<not> is_space (last (strip (unicode '' Rest '')))"
proof -
  let ?t = "unicode ''Day 1:  Old  town ''"
  have f: "findall ?t = [(unicode ''1'', unicode ''Old  town '')]"
    by (simp add: eval_simps)
  have b: "build_calendar (frozen new_year_2024) ?t (Some new_year_2024) =
     Inr \<lparr>prodid = unicode ''-//AI Travel Planner//github.com//'',
          version = unicode ''2.0'',
          components =
            [\<lparr>summary = day_summary 1, description = unicode ''Old  town'',
              dtstart = ymd2ord 2024 1 1, dtend = ymd2ord 2024 1 1,
              dtstamp = new_year_2024\<rparr>]\<rparr>"
    using f by (simp add: build_calendar_def default_start_def frozen_def new_year_2024_def)
      (simp add: eval_simps)
  have g: "findall (unicode '' Rest '') = []"
    by (simp add: eval_simps)
  have b2: "build_calendar (frozen new_year_2024) (unicode '' Rest '') (Some new_year_2024) =
     Inr \<lparr>prodid = unicode ''-//AI Travel Planner//github.com//'',
          version = unicode ''2.0'',
          components =
            [\<lparr>summary = trip_summary, description = unicode '' Rest '',
              dtstart = ymd2ord 2024 1 1, dtend = ymd2ord 2024 1 1,
              dtstamp = new_year_2024\<rparr>]\<rparr>"
    using g by (simp add: build_calendar_fallback default_start_def frozen_def new_year_2024_def)
  have s: "strip (unicode '' Rest '') \<noteq> []"
    by (simp add: eval_simps)
  have ne: "findall ?t \<noteq> []" using f by simp
  note inst1 = description_is_stripped_content
    [of "frozen new_year_2024" ?t "Some new_year_2024" _ "unicode '' Rest ''"]
  note inst2 = description_is_stripped_content
    [of "frozen new_year_2024" "unicode '' Rest ''" "Some new_year_2024" _ "unicode '' Rest ''"]
  from inst1 [THEN conjunct1, rule_format, OF conjI [OF b ne]]
    inst2 [THEN conjunct2, THEN conjunct1, rule_format, OF conjI [OF b2 g]]
    inst1 [THEN conjunct2, THEN conjunct2, THEN conjunct2, rule_format, OF s]
  show ?thesis using f by simp
qed

text \<open>
  C8. The output depends on the clock through its readings only: two clocks that agree
  on the readings taken (at most one per segment and two more) give identical output,
  whatever the serialiser. Under differing clocks and a supplied start date, both calls
  fail alike or build calendars that are equal apart from the timestamps of their events;
  with the start date omitted the same holds when the first readings fall on the same
  date, and the call is the one with the first reading supplied as start date.
\<close>
theorem output_depends_on_clock_only_by_stamps:
  "((\<forall>n\<le>Suc (length (findall plan_text)). clk1 n = clk2 n) \<longrightarrow>
      generate_ics_content to_ical clk1 plan_text start_date =
      generate_ics_content to_ical clk2 plan_text start_date) \<and>
   map_sum id sans_dtstamp (build_calendar clk1 plan_text (Some d)) =
   map_sum id sans_dtstamp (build_calendar clk2 plan_text (Some d)) \<and>
   (ordinal (clk1 0) = ordinal (clk2 0) \<longrightarrow>
      map_sum id sans_dtstamp (build_calendar clk1 plan_text None) =
      map_sum id sans_dtstamp (build_calendar clk2 plan_text None)) \<and>
   build_calendar clk1 plan_text None =
   build_calendar (\<lambda>n. clk1 (Suc n)) plan_text (Some (clk1 0))"
proof (intro conjI impI)
  assume "\<forall>n\<le>Suc (length (findall plan_text)). clk1 n = clk2 n"
  then show "generate_ics_content to_ical clk1 plan_text start_date =
      generate_ics_content to_ical clk2 plan_text start_date"
    by (simp add: generate_ics_content_def build_calendar_cong [of plan_text clk1 clk2])
next
  show "map_sum id sans_dtstamp (build_calendar clk1 plan_text (Some d)) =
      map_sum id sans_dtstamp (build_calendar clk2 plan_text (Some d))"
    by (rule build_calendar_sans) (simp add: default_start_def)
next
  assume "ordinal (clk1 0) = ordinal (clk2 0)"
  then show "map_sum id sans_dtstamp (build_calendar clk1 plan_text None) =
      map_sum id sans_dtstamp (build_calendar clk2 plan_text None)"
    by (intro build_calendar_sans) (simp add: default_start_def)
next
  have h: "process_days clk1 (Suc 0) (clk1 0) segs =
      process_days (\<lambda>n. clk1 (Suc n)) 0 (clk1 0) segs"
    for segs
    using process_days_cong [of segs clk1 1 "\<lambda>n. clk1 (Suc n)" 0 "clk1 0"] by simp
  show "build_calendar clk1 plan_text None =
      build_calendar (\<lambda>n. clk1 (Suc n)) plan_text (Some (clk1 0))"
    by (cases "findall plan_text = []")
       (simp_all add: build_calendar_fallback build_calendar_days default_start_def h)
qed

theorem output_depends_on_clock_only_by_stamps_witness:
  "generate_ics_content id (frozen new_year_2024) (unicode ''Day 1: Swim'') None =
   generate_ics_content id
     (\<lambda>n. if n < 3 then new_year_2024 else new_year_2024\<lparr>hour := 9\<rparr>)
     (unicode ''Day 1: Swim'') None \<and>
   map_sum id sans_dtstamp
     (build_calendar (frozen new_year_2024) (unicode ''Day 1: Swim'') None) =
   map_sum id sans_dtstamp
     (build_calendar (frozen (new_year_2024\<lparr>hour := 9\<rparr>)) (unicode ''Day 1: Swim'') None)"
proof -
  let ?t = "unicode ''Day 1: Swim''"
  let ?clk = "\<lambda>n. if n < 3 then new_year_2024 else new_year_2024\<lparr>hour := 9\<rparr>"
  have f: "findall ?t = [(unicode ''1'', unicode ''Swim'')]"
    by (simp add: eval_simps)
  have a: "\<forall>n\<le>Suc (length (findall ?t)). frozen new_year_2024 n = ?clk n"
    by (simp add: f frozen_def)
  have b: "ordinal (frozen new_year_2024 0) = ordinal (frozen (new_year_2024\<lparr>hour := 9\<rparr>) 0)"
    by (simp add: frozen_def)
  from output_depends_on_clock_only_by_stamps
         [of ?t "frozen new_year_2024" ?clk id None, THEN conjunct1, THEN mp, OF a]
       output_depends_on_clock_only_by_stamps
         [of ?t "frozen new_year_2024" "frozen (new_year_2024\<lparr>hour := 9\<rparr>)",
          THEN conjunct2, THEN conjunct2, THEN conjunct1, THEN mp, OF b]
  show ?thesis by simp
qed

text \<open>
  C9. When the text is a preamble followed by a part that starts with a day marker, and
  no match of the pattern begins inside the preamble, the call on the whole text gives
  what the call on the part without the preamble gives: the same segments, the same
  calendar and the same output. The preamble reaches no description and no date.
\<close>
theorem preamble_is_discarded:
  assumes "match_at t \<noteq> None"
    and "\<forall>q. q \<noteq> [] \<and> suffix q p \<longrightarrow> match_at (q @ t) = None"
  shows "findall (p @ t) = findall t \<and> findall t \<noteq> [] \<and>
         build_calendar clk (p @ t) start_date = build_calendar clk t start_date \<and>
         generate_ics_content to_ical clk (p @ t) start_date =
           generate_ics_content to_ical clk t start_date"
proof -
  from assms(2) have f: "findall (p @ t) = findall t"
    by (rule findall_preamble)
  from assms(1) have ne: "findall t \<noteq> []"
    by (cases t) (auto simp: match_at_def)
  from f ne have b: "build_calendar clk (p @ t) start_date = build_calendar clk t start_date"
    by (simp add: build_calendar_days)
  with f ne show ?thesis
    by (simp add: generate_ics_content_def)
qed

theorem preamble_is_discarded_witness:
  "build_calendar (frozen new_year_2024) (unicode ''Trip to Rome. '' @ unicode ''Day 1: Forum'')
     (Some new_year_2024) =
   build_calendar (frozen new_year_2024) (unicode ''Day 1: Forum'') (Some new_year_2024) \<and>
   build_calendar (frozen new_year_2024) (unicode ''Day 1: Forum'') (Some new_year_2024) =
     Inr \<lparr>prodid = unicode ''-//AI Travel Planner//github.com//'',
          version = unicode ''2.0'',
          components =
            [\<lparr>summary = day_summary 1, description = unicode ''Forum'',
              dtstart = ymd2ord 2024 1 1, dtend = ymd2ord 2024 1 1,
              dtstamp = new_year_2024\<rparr>]\<rparr>"
proof -
  have m: "match_at (unicode ''Day 1: Forum'') \<noteq> None"
    by (simp add: eval_simps)
  have "68 \<notin> set (unicode ''Trip to Rome. '')"
    by (simp add: unicode_def)
  then have p: "\<forall>q. q \<noteq> [] \<and> suffix q (unicode ''Trip to Rome. '') \<longrightarrow>
      match_at (q @ unicode ''Day 1: Forum'') = None"
    by (rule no_D_no_marker)
  have f: "findall (unicode ''Day 1: Forum'') = [(unicode ''1'', unicode ''Forum'')]"
    by (simp add: eval_simps)
  have b: "build_calendar (frozen new_year_2024) (unicode ''Day 1: Forum'') (Some new_year_2024) =
     Inr \<lparr>prodid = unicode ''-//AI Travel Planner//github.com//'',
          version = unicode ''2.0'',
          components =
            [\<lparr>summary = day_summary 1, description = unicode ''Forum'',
              dtstart = ymd2ord 2024 1 1, dtend = ymd2ord 2024 1 1,
              dtstamp = new_year_2024\<rparr>]\<rparr>"
    using f by (simp add: build_calendar_def default_start_def frozen_def new_year_2024_def)
      (simp add: eval_simps)
  from preamble_is_discarded [OF m p, of "frozen new_year_2024" "Some new_year_2024" id]
  have "build_calendar (frozen new_year_2024) (unicode ''Trip to Rome. '' @ unicode ''Day 1: Forum'')
     (Some new_year_2024) =
   build_calendar (frozen new_year_2024) (unicode ''Day 1: Forum'') (Some new_year_2024)"
    by (elim conjE)
  with b show ?thesis by (intro conjI)
qed

text \<open>
  C10. A match of the pattern at any position of the text, whatever stands before it, is
  one of the segments extracted. The content of every segment is followed in the text by
  \<open>Day\<close>, a space and a digit, or by the end of the text (or the line feed that ends it),
  and no earlier position of the content starts such an occurrence; so no content
  contains \<open>Day\<close>, a space and a digit.
\<close>
theorem day_marker_anywhere:
  "(match_at s = Some (ds, c, r) \<longrightarrow> (ds, c) \<in> set (findall (p @ s))) \<and>
   ((ds, c) \<in> set (findall t) \<longrightarrow>
      (\<exists>p seps r. t = p @ [68, 97, 121, 32] @ ds @ seps @ c @ r \<and>
         (day_digit r \<or> r = [] \<or> r = [10]) \<and>
         (\<forall>u v. c @ r = u @ v \<and> length u < length c \<longrightarrow> \<not> day_digit v))) \<and>
   ((ds, c) \<in> set (findall t) \<longrightarrow> (\<forall>u v. c = u @ v \<longrightarrow> \<not> day_digit v))"
proof -
  have seg: "\<exists>p seps r. t = p @ [68, 97, 121, 32] @ ds @ seps @ c @ r \<and>
         (day_digit r \<or> r = [] \<or> r = [10]) \<and>
         (\<forall>u v. c @ r = u @ v \<and> length u < length c \<longrightarrow> \<not> day_digit v)"
    if "(ds, c) \<in> set (findall t)"
  proof -
    from that obtain s' r' where s': "suffix s' t" "match_at s' = Some (ds, c, r')"
      by (auto dest: findall_segments)
    from match_atD [OF s'(2)] obtain seps where
      seps: "s' = [68, 97, 121, 32] @ ds @ seps @ c @ r'" and lz: "lazy_content (c @ r') = (c, r')"
      by auto
    from s'(1) obtain p' where "t = p' @ s'" by (auto simp: suffix_def)
    with seps have t: "t = p' @ [68, 97, 121, 32] @ ds @ seps @ c @ r'" by simp
    from lz have la: "day_digit r' \<or> r' = [] \<or> r' = [10]"
      by (auto dest: lazy_content_lookahead simp: lookahead_def)
    have "\<not> day_digit v" if "c @ r' = u @ v \<and> length u < length c" for u v
    proof
      assume "day_digit v"
      then have "lookahead v" by (simp add: lookahead_def)
      from lazy_content_minimal [OF lz _ this, of u] that show False by simp
    qed
    with t la show ?thesis by blast
  qed
  have inner: "\<not> day_digit v" if m: "(ds, c) \<in> set (findall t)" and c: "c = u @ v" for u v
  proof
    assume d: "day_digit v"
    from seg [OF m] obtain r' where
      min: "\<forall>u v. c @ r' = u @ v \<and> length u < length c \<longrightarrow> \<not> day_digit v"
      by blast
    from d have "v \<noteq> []" by (auto dest: day_digit_hd)
    with c have "c @ r' = u @ (v @ r') \<and> length u < length c" by simp
    with min have "\<not> day_digit (v @ r')" by blast
    with d show False by (simp add: day_digit_append)
  qed
  have "(ds, c) \<in> set (findall (p @ s))" if "match_at s = Some (ds, c, r)"
    using that by (intro findall_recognises [of s]) (simp_all add: suffix_def)
  with seg inner show ?thesis by blast
qed

theorem day_marker_anywhere_witness:
  "(unicode ''3'', unicode ''Tour\<newline>'') \<in> set (findall (unicode ''D-Day 3: Tour\<newline>Day 4'')) \<and>
   \<not> day_digit (unicode ''Tour\<newline>'')"
proof -
  let ?s = "unicode ''Day 3: Tour\<newline>Day 4''"
  have m: "match_at ?s = Some (unicode ''3'', unicode ''Tour\<newline>'', unicode ''Day 4'')"
    by (simp add: eval_simps)
  have u: "unicode ''D-'' @ ?s = unicode ''D-Day 3: Tour\<newline>Day 4''"
    by (simp add: unicode_def)
  note inst = day_marker_anywhere
    [of ?s "unicode ''3''" "unicode ''Tour\<newline>''" "unicode ''Day 4''" "unicode ''D-''"
       "unicode ''D-Day 3: Tour\<newline>Day 4''"]
  from inst [THEN conjunct1, rule_format, OF m]
  have 1: "(unicode ''3'', unicode ''Tour\<newline>'') \<in> set (findall (unicode ''D-Day 3: Tour\<newline>Day 4''))"
    by (simp only: u)
  from inst [THEN conjunct2, THEN conjunct2, rule_format, OF 1, of "[]" "unicode ''Tour\<newline>''"]
  have "\<not> day_digit (unicode ''Tour\<newline>'')" by simp
  with 1 show ?thesis by simp
qed

end
